theory Spec2Isabelle
  imports Main "HOL-Library.Word" "HOL-Library.AList"
begin

section \<open>The rotating file sink of castislogger.h\<close>

text \<open>
  A shallow embedding of \<^verbatim>\<open>cilog_backend\<close> (src/castislogger.h, lines 70 to 213): the
  sink that writes formatted records to dated files and rotates them by size.  The member
  functions are pure functions on a record of the object's fields and on a model of what
  they touch outside the object: the file system, the clock, and the library calls
  (\<^verbatim>\<open>boost::filesystem\<close>, \<^verbatim>\<open>boost::regex\<close>, \<^verbatim>\<open>std::ofstream\<close>, \<^verbatim>\<open>atoi\<close>).  An exception that
  leaves a member function is a value of the result.
\<close>

subsection \<open>Paths and the file system\<close>

text \<open>
  A path is the list of its components.  \<^verbatim>\<open>operator/\<close> appends a string, whose separators
  split it into components (POSIX separator only).
\<close>

type_synonym path = "string list"

fun splits :: "string \<Rightarrow> string list" where
  "splits [] = [[]]"
| "splits (c # cs) =
     (if c = CHR ''/'' then [] # splits cs
      else (case splits cs of [] \<Rightarrow> [[c]] | x # xs \<Rightarrow> (c # x) # xs))"

definition components :: "string \<Rightarrow> path" where
  "components s = filter (\<lambda>x. x \<noteq> []) (splits s)"

definition path_append :: "path \<Rightarrow> string \<Rightarrow> path" where
  "path_append p s = p @ components s"

definition parent_path :: "path \<Rightarrow> path" where
  "parent_path p = butlast p"

definition filename :: "path \<Rightarrow> string" where
  "filename p = (if p = [] then [] else last p)"

text \<open>
  The file system: the directories, the regular files with their contents, and the
  conditions under which an operation on a path is refused by the operating system
  (permissions, a full disk, a medium error).  The latter are part of the environment
  and may differ from one call of the sink to the next.
\<close>

record filesystem =
  dirs :: "path list"
  files :: "(path \<times> string) list"
  no_mkdir :: "path \<Rightarrow> bool"
  no_list :: "path \<Rightarrow> bool"
  no_open :: "path \<Rightarrow> bool"
  no_write :: "path \<Rightarrow> bool"

text \<open>
  Why a computation has no result.  \<open>Filesystem_Error\<close> is the exception
  \<^verbatim>\<open>boost::filesystem::filesystem_error\<close>.  The other two are not exceptions: they mark the
  places where the model stops following the code, a pattern outside the modelled
  fragment of the regex syntax and an \<^verbatim>\<open>atoi\<close> on a number that does not fit \<^verbatim>\<open>int\<close>.
\<close>

datatype failure =
    Filesystem_Error
  | Regex_Unmodelled
  | Undefined_Behaviour

definition is_directory :: "filesystem \<Rightarrow> path \<Rightarrow> bool" where
  "is_directory fs p = (p = [] \<or> p \<in> set (dirs fs))"

definition is_file :: "filesystem \<Rightarrow> path \<Rightarrow> bool" where
  "is_file fs p = (map_of (files fs) p \<noteq> None)"

definition content :: "filesystem \<Rightarrow> path \<Rightarrow> string" where
  "content fs p = (case map_of (files fs) p of None \<Rightarrow> [] | Some c \<Rightarrow> c)"

text \<open>The names a \<^verbatim>\<open>directory_iterator\<close> over \<open>d\<close> yields: files and subdirectories.\<close>

definition entries :: "filesystem \<Rightarrow> path \<Rightarrow> string list" where
  "entries fs d =
     map filename
       (filter (\<lambda>p. p \<noteq> [] \<and> parent_path p = d) (map fst (files fs) @ dirs fs))"

text \<open>
  \<^verbatim>\<open>boost::filesystem::create_directories(p)\<close>, the throwing overload: every missing
  ancestor is created, outermost first; an existing directory is accepted; an ancestor
  that is a regular file, or one that cannot be created, throws.
\<close>

fun mkdirs :: "filesystem \<Rightarrow> path list \<Rightarrow> failure option \<times> filesystem" where
  "mkdirs fs [] = (None, fs)"
| "mkdirs fs (q # qs) =
     (if is_directory fs q then mkdirs fs qs
      else if is_file fs q \<or> no_mkdir fs q then (Some Filesystem_Error, fs)
      else mkdirs (fs\<lparr>dirs := dirs fs @ [q]\<rparr>) qs)"

definition create_directories :: "filesystem \<Rightarrow> path \<Rightarrow> failure option \<times> filesystem" where
  "create_directories fs p = mkdirs fs (map (\<lambda>n. take n p) [1..<Suc (length p)])"

subsection \<open>The output stream\<close>

text \<open>
  \<^verbatim>\<open>boost::filesystem::ofstream\<close>: the file it is attached to, if any, and whether its state
  is \<^verbatim>\<open>goodbit\<close>.  The stream's buffer is not modelled: bytes the stream accepts are
  bytes of the file, and \<^verbatim>\<open>flush\<close> changes nothing.
\<close>

record ofstream =
  handle :: "path option"
  good :: bool

definition is_open :: "ofstream \<Rightarrow> bool" where
  "is_open f = (handle f \<noteq> None)"

text \<open>\<^verbatim>\<open>close()\<close> sets \<^verbatim>\<open>failbit\<close> when no file is open.\<close>

definition ofstream_close :: "ofstream \<Rightarrow> ofstream" where
  "ofstream_close f = \<lparr>handle = None, good = (good f \<and> is_open f)\<rparr>"

definition ofstream_clear :: "ofstream \<Rightarrow> ofstream" where
  "ofstream_clear f = f\<lparr>good := True\<rparr>"

text \<open>
  \<^verbatim>\<open>open(p)\<close> with no mode argument opens with \<^verbatim>\<open>std::ios_base::out\<close>: the file is created,
  or truncated to length zero when it exists.  A failed open sets \<^verbatim>\<open>failbit\<close>.
\<close>

definition can_open :: "filesystem \<Rightarrow> path \<Rightarrow> bool" where
  "can_open fs p =
     (p \<noteq> [] \<and> \<not> no_open fs p \<and> is_directory fs (parent_path p) \<and> p \<notin> set (dirs fs))"

definition ofstream_open :: "ofstream \<Rightarrow> filesystem \<Rightarrow> path \<Rightarrow> ofstream \<times> filesystem" where
  "ofstream_open f fs p =
     (if is_open f then (f\<lparr>good := False\<rparr>, fs)
      else if can_open fs p
        then (\<lparr>handle = Some p, good = True\<rparr>, fs\<lparr>files := AList.update p [] (files fs)\<rparr>)
      else (f\<lparr>good := False\<rparr>, fs))"

text \<open>
  \<^verbatim>\<open>write\<close> and \<^verbatim>\<open>put\<close> do nothing on a stream that is not good; a refused write sets
  \<^verbatim>\<open>badbit\<close>.  A file removed behind the stream's back receives nothing visible.
\<close>

definition ofstream_write :: "ofstream \<Rightarrow> filesystem \<Rightarrow> string \<Rightarrow> ofstream \<times> filesystem" where
  "ofstream_write f fs bytes =
     (if \<not> good f then (f, fs)
      else (case handle f of
              None \<Rightarrow> (f\<lparr>good := False\<rparr>, fs)
            | Some p \<Rightarrow>
                if no_write fs p then (f\<lparr>good := False\<rparr>, fs)
                else if is_file fs p
                  then (f, fs\<lparr>files := AList.update p (content fs p @ bytes) (files fs)\<rparr>)
                else (f, fs)))"

definition ofstream_put :: "ofstream \<Rightarrow> filesystem \<Rightarrow> char \<Rightarrow> ofstream \<times> filesystem" where
  "ofstream_put f fs c = ofstream_write f fs [c]"

definition ofstream_flush :: "ofstream \<Rightarrow> filesystem \<Rightarrow> ofstream \<times> filesystem" where
  "ofstream_flush f fs = (f, fs)"

text \<open>
  \<^verbatim>\<open>tellp()\<close> is \<open>-1\<close> on a failed stream, else the write position: the end of the file
  the stream has written since it truncated it.
\<close>

definition ofstream_tellp :: "ofstream \<Rightarrow> filesystem \<Rightarrow> int" where
  "ofstream_tellp f fs =
     (if \<not> good f then - 1
      else (case handle f of None \<Rightarrow> - 1 | Some p \<Rightarrow> int (length (content fs p))))"

subsection \<open>Decimal numbers, \<^verbatim>\<open>atoi\<close>, and the clock\<close>

definition digit_char :: "nat \<Rightarrow> char" where
  "digit_char d = char_of (48 + d)"

fun dec :: "nat \<Rightarrow> string" where
  "dec n = (if n < 10 then [digit_char n] else dec (n div 10) @ [digit_char (n mod 10)])"

declare dec.simps [simp del]

definition is_digit :: "char \<Rightarrow> bool" where
  "is_digit c = (48 \<le> (of_char c :: nat) \<and> (of_char c :: nat) \<le> 57)"

definition is_space :: "char \<Rightarrow> bool" where
  "is_space c = ((of_char c :: nat) = 32 \<or> (9 \<le> (of_char c :: nat) \<and> (of_char c :: nat) \<le> 13))"

definition digit_val :: "char \<Rightarrow> nat" where
  "digit_val c = (of_char c :: nat) - 48"

definition digits_val :: "string \<Rightarrow> nat" where
  "digits_val ds = foldl (\<lambda>a c. 10 * a + digit_val c) 0 ds"

text \<open>
  \<^verbatim>\<open>atoi\<close>: leading white space, an optional sign, then the longest run of digits.  The C
  standard leaves the result undefined when the number does not fit \<^verbatim>\<open>int\<close>: \<open>None\<close>.
\<close>

definition atoi :: "string \<Rightarrow> int option" where
  "atoi s =
     (let t = dropWhile is_space s;
          neg = (t \<noteq> [] \<and> hd t = CHR ''-'');
          u = (if t \<noteq> [] \<and> (hd t = CHR ''-'' \<or> hd t = CHR ''+'') then tl t else t);
          v = int (digits_val (takeWhile is_digit u));
          r = (if neg then - v else v)
      in if - (2 ^ 31) \<le> r \<and> r < 2 ^ 31 then Some r else None)"

record ptime =
  year :: nat
  month :: nat
  day :: nat
  hours :: nat
  minutes :: nat
  seconds :: nat

definition pad :: "nat \<Rightarrow> nat \<Rightarrow> string" where
  "pad w n = replicate (w - length (dec n)) CHR ''0'' @ dec n"

text \<open>
  The \<^verbatim>\<open>time_facet\<close> applied to a time, for the flags this program uses (\<^verbatim>\<open>%Y\<close>, \<^verbatim>\<open>%m\<close>,
  \<^verbatim>\<open>%d\<close>); every other character of the format is copied.
\<close>

fun time_put :: "string \<Rightarrow> ptime \<Rightarrow> string" where
  "time_put [] t = []"
| "time_put [c] t = [c]"
| "time_put (c # d # cs) t =
     (if c = CHR ''%'' \<and> d = CHR ''Y'' then pad 4 (year t) @ time_put cs t
      else if c = CHR ''%'' \<and> d = CHR ''m'' then pad 2 (month t) @ time_put cs t
      else if c = CHR ''%'' \<and> d = CHR ''d'' then pad 2 (day t) @ time_put cs t
      else c # time_put (d # cs) t)"

subsection \<open>The regular expressions of the scan\<close>

text \<open>
  \<^verbatim>\<open>boost::regex\<close> (Perl syntax) is modelled on a fragment: a pattern is a sequence of
  single-character atoms (a literal character, \<^verbatim>\<open>.\<close>, or a bracket set of characters and
  ranges), each with at most one of the quantifiers \<^verbatim>\<open>*\<close>, \<^verbatim>\<open>+\<close>, \<^verbatim>\<open>?\<close>.  A pattern that uses
  anything else (groups, alternation, braces, anchors, escapes outside a set, negated or
  named sets, a quantifier on a quantifier) is not compiled: \<open>None\<close>.
\<close>

datatype atom = Lit char | Any | Cls "(char \<times> char) list"

datatype quant = Once | ZeroOrOne | ZeroOrMore | OneOrMore

type_synonym regex = "(atom \<times> quant) list"

datatype pstate =
    Top
  | InCls "(char \<times> char) list"
  | InClsEsc "(char \<times> char) list"
  | InClsCh "(char \<times> char) list" char
  | InClsDash "(char \<times> char) list" char

definition is_alnum :: "char \<Rightarrow> bool" where
  "is_alnum c =
     (let n = (of_char c :: nat)
      in (48 \<le> n \<and> n \<le> 57) \<or> (65 \<le> n \<and> n \<le> 90) \<or> (97 \<le> n \<and> n \<le> 122))"

definition quantify :: "quant \<Rightarrow> regex \<Rightarrow> regex option" where
  "quantify q acc =
     (case acc of
        [] \<Rightarrow> None
      | (a, q0) # rest \<Rightarrow> if q0 = Once then Some ((a, q) # rest) else None)"

text \<open>The compiler reads the pattern left to right; \<open>acc\<close> holds the items read, last first.\<close>

fun regex_compile_from :: "pstate \<Rightarrow> regex \<Rightarrow> string \<Rightarrow> regex option" where
  "regex_compile_from st acc [] = (if st = Top then Some (rev acc) else None)"
| "regex_compile_from Top acc (c # cs) =
     (if c = CHR ''['' then regex_compile_from (InCls []) acc cs
      else if c = CHR ''.'' then regex_compile_from Top ((Any, Once) # acc) cs
      else if c = CHR ''*'' then
        (case quantify ZeroOrMore acc of None \<Rightarrow> None
         | Some acc' \<Rightarrow> regex_compile_from Top acc' cs)
      else if c = CHR ''+'' then
        (case quantify OneOrMore acc of None \<Rightarrow> None
         | Some acc' \<Rightarrow> regex_compile_from Top acc' cs)
      else if c = CHR ''?'' then
        (case quantify ZeroOrOne acc of None \<Rightarrow> None
         | Some acc' \<Rightarrow> regex_compile_from Top acc' cs)
      else if c \<in> set (''(){}|^$]'' @ [CHR 0x5C]) then None
      else regex_compile_from Top ((Lit c, Once) # acc) cs)"
| "regex_compile_from (InCls rs) acc (c # cs) =
     (if c = CHR '']'' then
        (if rs = [] then None else regex_compile_from Top ((Cls rs, Once) # acc) cs)
      else if c = CHR 0x5C then regex_compile_from (InClsEsc rs) acc cs
      else if c \<in> set ''[^-'' then None
      else regex_compile_from (InClsCh rs c) acc cs)"
| "regex_compile_from (InClsEsc rs) acc (c # cs) =
     (if is_alnum c then None else regex_compile_from (InCls (rs @ [(c, c)])) acc cs)"
| "regex_compile_from (InClsCh rs a) acc (c # cs) =
     (if c = CHR ''-'' then regex_compile_from (InClsDash rs a) acc cs
      else if c = CHR '']'' then regex_compile_from Top ((Cls (rs @ [(a, a)]), Once) # acc) cs
      else if c = CHR 0x5C then regex_compile_from (InClsEsc (rs @ [(a, a)])) acc cs
      else if c \<in> set ''[^'' then None
      else regex_compile_from (InClsCh (rs @ [(a, a)]) c) acc cs)"
| "regex_compile_from (InClsDash rs a) acc (c # cs) =
     (if c \<in> set (''[]^-'' @ [CHR 0x5C]) then None
      else if (of_char a :: nat) \<le> of_char c
        then regex_compile_from (InCls (rs @ [(a, c)])) acc cs
      else None)"

definition regex_compile :: "string \<Rightarrow> regex option" where
  "regex_compile s = regex_compile_from Top [] s"

fun atom_ok :: "atom \<Rightarrow> char \<Rightarrow> bool" where
  "atom_ok (Lit a) c = (c = a)"
| "atom_ok Any c = True"
| "atom_ok (Cls rs) c =
     list_ex (\<lambda>(lo, hi). (of_char lo :: nat) \<le> of_char c \<and> (of_char c :: nat) \<le> of_char hi) rs"

text \<open>\<^verbatim>\<open>regex_match\<close> succeeds when the pattern matches the whole string.\<close>

fun match_items :: "regex \<Rightarrow> string \<Rightarrow> bool" where
  "match_items [] w = (w = [])"
| "match_items ((a, Once) # items) [] = False"
| "match_items ((a, Once) # items) (c # cs) = (atom_ok a c \<and> match_items items cs)"
| "match_items ((a, ZeroOrOne) # items) [] = match_items items []"
| "match_items ((a, ZeroOrOne) # items) (c # cs) =
     (match_items items (c # cs) \<or> (atom_ok a c \<and> match_items items cs))"
| "match_items ((a, ZeroOrMore) # items) [] = match_items items []"
| "match_items ((a, ZeroOrMore) # items) (c # cs) =
     (match_items items (c # cs) \<or> (atom_ok a c \<and> match_items ((a, ZeroOrMore) # items) cs))"
| "match_items ((a, OneOrMore) # items) [] = False"
| "match_items ((a, OneOrMore) # items) (c # cs) =
     (atom_ok a c \<and> match_items ((a, ZeroOrMore) # items) cs)"

definition regex_match :: "string \<Rightarrow> regex \<Rightarrow> bool" where
  "regex_match s pat = match_items pat s"

subsection \<open>The sink\<close>

type_synonym uintmax = "64 word"

record cilog_backend =
  auto_flush :: bool
  "file" :: ofstream
  target_path :: path
  file_path :: path
  file_name_suffix :: string
  rotation_size :: uintmax
  characters_written :: uintmax

text \<open>The record handed to \<^verbatim>\<open>consume\<close>; of its attributes only the time stamp is kept.\<close>

record record_view =
  timestamp :: ptime

text \<open>
  The two readings of \<^verbatim>\<open>second_clock::universal_time()\<close> that one call of
  \<^verbatim>\<open>generate_filepath\<close> makes, in the order of lines 144 and 145.
\<close>

type_synonym clock = "ptime \<times> ptime"

text \<open>
  How a call of \<^verbatim>\<open>consume\<close> ends: it returns, or an exception leaves it; the sink and the
  file system are then as the call left them.  \<open>Unmodelled\<close> is not an end of the code:
  the call has reached a place where the model stops following it, and nothing is said
  about what the code does from there (it may return, or throw \<^verbatim>\<open>boost::regex_error\<close>).
\<close>

datatype outcome =
    is_Returned: Returned (sink_of: cilog_backend) (disk_of: filesystem)
  | is_Raised: Raised (failure_of: failure) (sink_of: cilog_backend) (disk_of: filesystem)
  | is_Unmodelled: Unmodelled (failure_of: failure) (sink_of: cilog_backend) (disk_of: filesystem)

definition cilog_backend_init :: "path \<Rightarrow> string \<Rightarrow> uintmax \<Rightarrow> bool \<Rightarrow> cilog_backend" where
  "cilog_backend_init target suffix rotation flush =
     \<lparr>auto_flush = flush,
      file = \<lparr>handle = None, good = True\<rparr>,
      target_path = target,
      file_path = [],
      file_name_suffix = suffix,
      rotation_size = rotation,
      characters_written = 0\<rparr>"

definition rotate_file :: "cilog_backend \<Rightarrow> cilog_backend" where
  "rotate_file s =
     s\<lparr>file := ofstream_clear (ofstream_close (file s)), characters_written := 0\<rparr>"

definition datetime_string_with_format :: "string \<Rightarrow> ptime \<Rightarrow> string" where
  "datetime_string_with_format format now = time_put format now"

text \<open>\<^verbatim>\<open>std::string::find\<close>: the position of the first occurrence, \<open>None\<close> for \<^verbatim>\<open>npos\<close>.\<close>

fun find_char :: "string \<Rightarrow> char \<Rightarrow> nat option" where
  "find_char [] c = None"
| "find_char (x # xs) c =
     (if x = c then Some 0 else map_option Suc (find_char xs c))"

text \<open>
  \<^verbatim>\<open>substr(pos, n)\<close> with the length computed in \<^verbatim>\<open>size_t\<close>: \<open>pos_index_end - pos_index_begin\<close>
  wraps around when the first \<^verbatim>\<open>]\<close> comes before the first \<^verbatim>\<open>[\<close>.  The value of \<^verbatim>\<open>atoi\<close>
  becomes an \<^verbatim>\<open>unsigned int\<close>, so the index is below \<open>2 ^ 32\<close>.
\<close>

definition parse_index :: "string \<Rightarrow> nat option" where
  "parse_index name =
     (case (find_char name CHR ''['', find_char name CHR '']'') of
        (Some pos_index_begin, Some pos_index_end) \<Rightarrow>
          (let n = (if pos_index_begin \<le> pos_index_end then pos_index_end - pos_index_begin
                    else 2 ^ 64 - (pos_index_begin - pos_index_end))
           in map_option (\<lambda>i. nat (i mod 2 ^ 32))
                (atoi (take n (drop (pos_index_begin + 1) name))))
      | _ \<Rightarrow> Some 0)"

text \<open>The loop of \<^verbatim>\<open>scan_next_index\<close> over the names the directory iterator yields.\<close>

fun scan_loop :: "regex \<Rightarrow> string list \<Rightarrow> nat \<Rightarrow> failure + nat" where
  "scan_loop pattern [] next_index = Inr next_index"
| "scan_loop pattern (name # rest) next_index =
     (if regex_match name pattern then
        (case parse_index name of
           None \<Rightarrow> Inl Undefined_Behaviour
         | Some index \<Rightarrow>
             scan_loop pattern rest (if index \<ge> next_index then index + 1 else next_index))
      else scan_loop pattern rest next_index)"

text \<open>The constructor of \<^verbatim>\<open>directory_iterator\<close> throws when the directory cannot be read.\<close>

definition scan_next_index :: "filesystem \<Rightarrow> path \<Rightarrow> regex \<Rightarrow> failure + nat" where
  "scan_next_index fs p pattern =
     (if p \<noteq> [] \<and> p \<in> set (dirs fs) then
        (if no_list fs p then Inl Filesystem_Error
         else scan_loop pattern (entries fs p) 0)
      else Inr 0)"

definition pattern_string :: "string \<Rightarrow> string \<Rightarrow> string" where
  "pattern_string filename_prefix suffix =
     filename_prefix @ (''['' @ [CHR 0x5C] @ ''['' @ [CHR 0x5C] @ '']0-9]*'') @ ''_'' @ suffix
       @ ''.log''"

definition indexed_name :: "string \<Rightarrow> nat \<Rightarrow> string \<Rightarrow> string" where
  "indexed_name filename_prefix next_index suffix =
     filename_prefix @ (if next_index > 0 then ''['' @ dec next_index @ '']'' else [])
       @ (''_'' @ suffix) @ ''.log''"

definition generate_filepath :: "cilog_backend \<Rightarrow> filesystem \<Rightarrow> clock \<Rightarrow> failure + path" where
  "generate_filepath s fs clk =
     (let filename_prefix = datetime_string_with_format ''%Y-%m-%d'' (fst clk);
          monthly_path_name = datetime_string_with_format ''%Y-%m'' (snd clk);
          monthly_path = path_append (target_path s) monthly_path_name
      in case regex_compile (pattern_string filename_prefix (file_name_suffix s)) of
           None \<Rightarrow> Inl Regex_Unmodelled
         | Some pattern \<Rightarrow>
             (case scan_next_index fs monthly_path pattern of
                Inl e \<Rightarrow> Inl e
              | Inr next_index \<Rightarrow>
                  Inr (path_append monthly_path
                         (indexed_name filename_prefix next_index (file_name_suffix s)))))"

text \<open>Lines 122 to 131: the write, the newline, the counter, the flush.\<close>

definition write_record :: "cilog_backend \<Rightarrow> filesystem \<Rightarrow> string \<Rightarrow> outcome" where
  "write_record s fs formatted_message =
     (let (f1, fs1) = ofstream_write (file s) fs formatted_message;
          (f2, fs2) = ofstream_put f1 fs1 CHR 0x0A;
          cw = characters_written s + (of_nat (length formatted_message) + 1);
          (f3, fs3) = (if auto_flush s then ofstream_flush f2 fs2 else (f2, fs2))
      in Returned (s\<lparr>file := f3, characters_written := cw\<rparr>) fs3)"

text \<open>The condition of lines 102 to 105, in the arithmetic of \<^verbatim>\<open>uintmax_t\<close>.\<close>

definition rotation_due :: "cilog_backend \<Rightarrow> string \<Rightarrow> bool" where
  "rotation_due s formatted_message =
     ((is_open (file s) \<and>
       characters_written s + of_nat (length formatted_message) \<ge> rotation_size s)
      \<or> \<not> good (file s))"

definition consume ::
  "cilog_backend \<Rightarrow> filesystem \<Rightarrow> clock \<Rightarrow> record_view \<Rightarrow> string \<Rightarrow> outcome" where
  "consume s fs clk rec formatted_message =
     (let s1 = (if rotation_due s formatted_message then rotate_file s else s)
      in if \<not> is_open (file s1) then
           (case generate_filepath s1 fs clk of
              Inl e \<Rightarrow> if e = Filesystem_Error then Raised e s1 fs else Unmodelled e s1 fs
            | Inr p \<Rightarrow>
                (let s2 = s1\<lparr>file_path := p\<rparr> in
                 case create_directories fs (parent_path p) of
                   (Some e, fs2) \<Rightarrow> Raised e s2 fs2
                 | (None, fs2) \<Rightarrow>
                     (let (f3, fs3) = ofstream_open (file s2) fs2 p in
                      if \<not> is_open f3 then Returned (s2\<lparr>file := f3\<rparr>) fs3
                      else write_record
                             (s2\<lparr>file := f3,
                                 characters_written := word_of_int (ofstream_tellp f3 fs3)\<rparr>)
                             fs3 formatted_message)))
         else write_record s1 fs formatted_message)"

text \<open>
  What can be observed of an outcome: why the call did not return, if it did not, the
  sink's stored path, the stream's file and state, the byte counter, and the directories and files.
\<close>

definition observe ::
  "outcome \<Rightarrow> failure option \<times> path \<times> path option \<times> bool \<times> nat \<times> path list \<times> (path \<times> string) list"
  where
  "observe r =
     ((if is_Returned r then None else Some (failure_of r)),
      file_path (sink_of r), handle (file (sink_of r)), good (file (sink_of r)),
      unat (characters_written (sink_of r)), dirs (disk_of r), files (disk_of r))"

text \<open>A run of the sink: each record comes with the clock of its call.\<close>

fun consume_all ::
  "cilog_backend \<Rightarrow> filesystem \<Rightarrow> (clock \<times> record_view \<times> string) list \<Rightarrow> outcome" where
  "consume_all s fs [] = Returned s fs"
| "consume_all s fs ((clk, rec, msg) # rest) =
     (case consume s fs clk rec msg of
        Returned s' fs' \<Rightarrow> consume_all s' fs' rest
      | Raised e s' fs' \<Rightarrow> Raised e s' fs'
      | Unmodelled e s' fs' \<Rightarrow> Unmodelled e s' fs')"

subsection \<open>The file name format in the spec's words\<close>

text \<open>
  The date prefix \<open>YYYY-MM-DD\<close> and the monthly directory \<open>YYYY-MM\<close> of a time.
\<close>

definition yyyy_mm_dd :: "ptime \<Rightarrow> string" where
  "yyyy_mm_dd t = pad 4 (year t) @ ''-'' @ pad 2 (month t) @ ''-'' @ pad 2 (day t)"

definition yyyy_mm :: "ptime \<Rightarrow> string" where
  "yyyy_mm t = pad 4 (year t) @ ''-'' @ pad 2 (month t)"

text \<open>
  The next index as section 4.2 of the spec words it, with no regular expression: a name
  matches a day and a suffix when it is the date prefix, then optionally \<open>[\<close>, digits and
  \<open>]\<close>, then \<open>_\<close>, the suffix and \<open>.log\<close>; its index is the number in the brackets, 0 when
  there are none; the next index is one more than the greatest index of the matching
  names, 0 when no name matches.
\<close>

definition strip_prefix :: "string \<Rightarrow> string \<Rightarrow> string option" where
  "strip_prefix p s = (if take (length p) s = p then Some (drop (length p) s) else None)"

definition spec_index :: "string \<Rightarrow> string \<Rightarrow> string \<Rightarrow> nat option" where
  "spec_index date_prefix suffix name =
     (case strip_prefix date_prefix name of
        None \<Rightarrow> None
      | Some rest \<Rightarrow>
          if rest = ''_'' @ suffix @ ''.log'' then Some 0
          else (case strip_prefix ''['' rest of
                  None \<Rightarrow> None
                | Some r \<Rightarrow>
                    if takeWhile is_digit r \<noteq> []
                       \<and> dropWhile is_digit r = '']_'' @ suffix @ ''.log''
                    then Some (digits_val (takeWhile is_digit r))
                    else None))"

definition spec_next_index :: "string \<Rightarrow> string \<Rightarrow> string list \<Rightarrow> nat" where
  "spec_next_index date_prefix suffix names =
     (let found = List.map_filter (spec_index date_prefix suffix) names
      in if found = [] then 0 else Max (set found) + 1)"

subsection \<open>Suffixes that are literal in the pattern\<close>

text \<open>
  A suffix is plain when none of its characters is special in the regular expression or
  separates path components.  For a date and a plain suffix the pattern of
  \<^verbatim>\<open>generate_filepath\<close> compiles to: the date, any run of brackets and digits, the
  underscore and the suffix, any one character, \<open>log\<close>.
\<close>

definition literal_char :: "char \<Rightarrow> bool" where
  "literal_char c = (c \<notin> set (''[].*+?(){}|^$/'' @ [CHR 0x5C]))"

definition plain :: "string \<Rightarrow> bool" where
  "plain s = (\<forall>c \<in> set s. literal_char c)"

definition lits :: "string \<Rightarrow> regex" where
  "lits s = map (\<lambda>c. (Lit c, Once)) s"

definition bracket_digits :: atom where
  "bracket_digits = Cls [(CHR ''['', CHR ''[''), (CHR '']'', CHR '']''), (CHR ''0'', CHR ''9'')]"

subsection \<open>Inputs used in the examples\<close>

definition noon_jan01 :: ptime where
  "noon_jan01 = \<lparr>year = 2024, month = 1, day = 1, hours = 12, minutes = 0, seconds = 0\<rparr>"



definition empty_disk :: filesystem where
  "empty_disk =
     \<lparr>dirs = [], files = [], no_mkdir = (\<lambda>_. False), no_list = (\<lambda>_. False),
      no_open = (\<lambda>_. False), no_write = (\<lambda>_. False)\<rparr>"

definition rec_at :: "ptime \<Rightarrow> record_view" where
  "rec_at t = \<lparr>timestamp = t\<rparr>"

definition jan_dir :: path where
  "jan_dir = [''var'', ''log'', ''2024-01'']"

definition svc_sink :: cilog_backend where
  "svc_sink = cilog_backend_init [''var'', ''log''] ''svc'' 50 True"

definition svc_file :: path where
  "svc_file = jan_dir @ [''2024-01-01_svc.log'']"

text \<open>A sink whose suffix holds a character that is special in a regular expression.\<close>

definition plus_sink :: cilog_backend where
  "plus_sink = cilog_backend_init [''var'', ''log''] ''a+'' 50 True"

definition plus_file :: path where
  "plus_file = jan_dir @ [''2024-01-01_a+.log'']"

definition jan_disk :: "(path \<times> string) list \<Rightarrow> filesystem" where
  "jan_disk fls = empty_disk\<lparr>dirs := [[''var''], [''var'', ''log''], jan_dir], files := fls\<rparr>"

definition svc_pattern :: regex where
  "svc_pattern = the (regex_compile (pattern_string ''2024-01-01'' ''svc''))"

definition app_sink :: cilog_backend where
  "app_sink = cilog_backend_init [''var'', ''log''] ''app'' 50 True"

definition app_disk :: filesystem where
  "app_disk = jan_disk [(jan_dir @ [''2024-01-01_app.log''], []),
                       (jan_dir @ [''2024-01-01[1]_app.log''], [])]"

text \<open>A time stamp half a year before the clock of the examples.\<close>

definition old_stamp :: ptime where
  "old_stamp = \<lparr>year = 2023, month = 6, day = 15, hours = 8, minutes = 30, seconds = 0\<rparr>"



section \<open>Lemmas\<close>

subsection \<open>The file system and the stream\<close>

lemma mkdirs_frame:
  "files (snd (mkdirs fs qs)) = files fs \<and> no_write (snd (mkdirs fs qs)) = no_write fs
   \<and> no_open (snd (mkdirs fs qs)) = no_open fs \<and> no_list (snd (mkdirs fs qs)) = no_list fs
   \<and> no_mkdir (snd (mkdirs fs qs)) = no_mkdir fs"
  by (induction fs qs rule: mkdirs.induct) (simp_all add: is_file_def is_directory_def)

lemma create_directories_frame:
  "files (snd (create_directories fs p)) = files fs"
  "no_write (snd (create_directories fs p)) = no_write fs"
  "no_open (snd (create_directories fs p)) = no_open fs"
  by (simp_all add: create_directories_def mkdirs_frame)

lemma closed_stream: "\<not> is_open f \<Longrightarrow> good f \<Longrightarrow> f = \<lparr>handle = None, good = True\<rparr>"
  by (cases f) (simp add: is_open_def)

lemma write_record_returns:
  "\<exists>s' fs'. write_record s fs msg = Returned s' fs'
     \<and> handle (file s') = handle (file s) \<and> file_path s' = file_path s
     \<and> characters_written s' = characters_written s + (of_nat (length msg) + 1)"
  by (simp add: write_record_def ofstream_write_def ofstream_put_def ofstream_flush_def
      split: option.splits prod.splits)

lemma write_record_good:
  assumes "handle (file s) = Some p" "good (file s)" "\<not> no_write fs p" "is_file fs p"
  shows "write_record s fs msg =
     Returned (s\<lparr>characters_written := characters_written s + (of_nat (length msg) + 1)\<rparr>)
       (fs\<lparr>files := AList.update p (content fs p @ msg @ [CHR 0x0A]) (files fs)\<rparr>)"
  using assms
  by (simp add: write_record_def ofstream_write_def ofstream_put_def ofstream_flush_def
      update_last content_def is_file_def update_conv')

lemma write_record_good_after:
  assumes "write_record s fs msg = Returned s' fs'" "good (file s')" "handle (file s) = Some p"
  shows "\<not> no_write fs p"
  using assms
  by (auto simp: write_record_def ofstream_write_def ofstream_put_def ofstream_flush_def
      split: if_splits)

subsection \<open>The two ways through consume\<close>


lemma rotation_check_closed:
  assumes "\<not> is_open (file s) \<or> rotation_due s msg"
  shows "file (if rotation_due s msg then rotate_file s else s) = \<lparr>handle = None, good = True\<rparr>"
  using assms
  by (auto simp: rotation_due_def rotate_file_def ofstream_clear_def ofstream_close_def
      intro: closed_stream)

lemma generate_filepath_rotate:
  "generate_filepath (if b then rotate_file s else s) fs clk = generate_filepath s fs clk"
  by (simp add: generate_filepath_def rotate_file_def Let_def split: option.splits sum.splits)

lemma consume_must_open:
  assumes "\<not> is_open (file s) \<or> rotation_due s msg"
  shows "consume s fs clk rec msg =
     (case generate_filepath s fs clk of
        Inl e \<Rightarrow>
          if e = Filesystem_Error
          then Raised e (if rotation_due s msg then rotate_file s else s) fs
          else Unmodelled e (if rotation_due s msg then rotate_file s else s) fs
      | Inr p \<Rightarrow>
          (case create_directories fs (parent_path p) of
             (Some e, fs2) \<Rightarrow>
               Raised e ((if rotation_due s msg then rotate_file s else s)\<lparr>file_path := p\<rparr>) fs2
           | (None, fs2) \<Rightarrow>
               if can_open fs2 p then
                 write_record
                   ((if rotation_due s msg then rotate_file s else s)
                      \<lparr>file_path := p, file := \<lparr>handle = Some p, good = True\<rparr>,
                       characters_written := 0\<rparr>)
                   (fs2\<lparr>files := AList.update p [] (files fs2)\<rparr>) msg
               else
                 Returned
                   ((if rotation_due s msg then rotate_file s else s)
                      \<lparr>file_path := p, file := \<lparr>handle = None, good = False\<rparr>\<rparr>)
                   fs2))"
proof -
  define s1 where "s1 = (if rotation_due s msg then rotate_file s else s)"
  have closed: "file s1 = \<lparr>handle = None, good = True\<rparr>"
    unfolding s1_def using assms by (rule rotation_check_closed)
  have gen: "generate_filepath s1 fs clk = generate_filepath s fs clk"
    unfolding s1_def by (rule generate_filepath_rotate)
  show ?thesis
    unfolding consume_def s1_def [symmetric] Let_def
    using closed gen
    by (simp add: is_open_def ofstream_open_def ofstream_tellp_def content_def update_conv'
        split: sum.splits prod.splits option.splits)
qed

lemma consume_opening:
  assumes must_open: "\<not> is_open (file s) \<or> rotation_due s msg"
    and path: "generate_filepath s fs clk = Inr p"
    and made: "fst (create_directories fs (parent_path p)) = None"
    and openable: "can_open (snd (create_directories fs (parent_path p))) p"
    and writable: "\<not> no_write fs p"
  shows "consume s fs clk rec msg =
     Returned
       (s\<lparr>file := \<lparr>handle = Some p, good = True\<rparr>, file_path := p,
          characters_written := of_nat (length msg) + 1\<rparr>)
       ((snd (create_directories fs (parent_path p)))
          \<lparr>files := AList.update p (msg @ [CHR 0x0A]) (files fs)\<rparr>)"
proof -
  obtain fs2 where cd: "create_directories fs (parent_path p) = (None, fs2)"
    using made by (cases "create_directories fs (parent_path p)") simp
  have nw: "\<not> no_write fs2 p" and fl: "files fs2 = files fs"
    using writable create_directories_frame [of fs "parent_path p"] cd by simp_all
  let ?s1 = "if rotation_due s msg then rotate_file s else s"
  have "write_record
      (?s1\<lparr>file_path := p, file := \<lparr>handle = Some p, good = True\<rparr>, characters_written := 0\<rparr>)
      (fs2\<lparr>files := AList.update p [] (files fs2)\<rparr>) msg =
     Returned
       (?s1\<lparr>file_path := p, file := \<lparr>handle = Some p, good = True\<rparr>,
           characters_written := of_nat (length msg) + 1\<rparr>)
       (fs2\<lparr>files := AList.update p (msg @ [CHR 0x0A]) (files fs2)\<rparr>)"
    using nw
    by (simp add: write_record_good [where p = p] update_last is_file_def content_def
        update_conv')
  then show ?thesis
    using consume_must_open [OF must_open, of fs clk rec] path cd openable fl
    by (simp add: rotate_file_def)
qed


lemma consume_opening_path:
  assumes must_open: "\<not> is_open (file s) \<or> rotation_due s msg"
    and ret: "consume s fs clk rec msg = Returned s' fs'"
    and h: "handle (file s') = Some p"
  shows "generate_filepath s fs clk = Inr p
     \<and> fst (create_directories fs (parent_path p)) = None
     \<and> can_open (snd (create_directories fs (parent_path p))) p
     \<and> (good (file s') \<longrightarrow> \<not> no_write fs p)"
proof -
  let ?s1 = "if rotation_due s msg then rotate_file s else s"
  note unf = consume_must_open [OF must_open, of fs clk rec]
  obtain q where q: "generate_filepath s fs clk = Inr q"
    using ret unf by (cases "generate_filepath s fs clk") (auto split: if_splits)
  obtain r fs2 where cd: "create_directories fs (parent_path q) = (r, fs2)"
    by (cases "create_directories fs (parent_path q)")
  have r: "r = None"
    using ret unf q cd by (cases r) simp_all
  have co: "can_open fs2 q"
    using ret unf q cd r h by (cases "can_open fs2 q") auto
  let ?s3 = "?s1\<lparr>file_path := q, file := \<lparr>handle = Some q, good = True\<rparr>,
      characters_written := 0\<rparr>"
  let ?fs3 = "fs2\<lparr>files := AList.update q [] (files fs2)\<rparr>"
  have wr: "write_record ?s3 ?fs3 msg = Returned s' fs'"
    using ret unf q cd r co by simp
  have "handle (file s') = Some q"
    using write_record_returns [of ?s3 ?fs3 msg] wr by auto
  with h have pq: "q = p" by simp
  have "good (file s') \<longrightarrow> \<not> no_write fs q"
  proof
    assume "good (file s')"
    with wr have "\<not> no_write ?fs3 q"
      by (rule write_record_good_after) simp
    then show "\<not> no_write fs q"
      using cd create_directories_frame(2) [of fs "parent_path q"] by simp
  qed
  with q cd r co pq show ?thesis by simp
qed







subsection \<open>Dates and path components\<close>

lemma splits_no_slash: "CHR ''/'' \<notin> set s \<Longrightarrow> splits s = [s]"
  by (induction s) auto

lemma components_plain: "CHR ''/'' \<notin> set s \<Longrightarrow> s \<noteq> [] \<Longrightarrow> components s = [s]"
  by (simp add: components_def splits_no_slash)

lemma digit_char_is_digit: "d < 10 \<Longrightarrow> is_digit (digit_char d)"
  by (simp add: is_digit_def digit_char_def)

lemma dec_digits: "\<forall>c \<in> set (dec n). is_digit c"
proof (induction n rule: dec.induct)
  case (1 n)
  show ?case
  proof (cases "n < 10")
    case True
    then show ?thesis by (subst dec.simps) (simp add: digit_char_is_digit)
  next
    case False
    then show ?thesis using 1 by (subst dec.simps) (auto simp: digit_char_is_digit)
  qed
qed

lemma dec_nonempty: "dec n \<noteq> []"
  by (subst dec.simps) simp

lemma pad_digits: "\<forall>c \<in> set (pad w n). is_digit c"
  using dec_digits by (auto simp: pad_def is_digit_def)

lemma pad_nonempty: "pad w n \<noteq> []"
  by (simp add: pad_def dec_nonempty)

lemma month_string:
  "datetime_string_with_format ''%Y-%m'' t = pad 4 (year t) @ ''-'' @ pad 2 (month t)"
  by (simp add: datetime_string_with_format_def)

lemma date_string:
  "datetime_string_with_format ''%Y-%m-%d'' t =
     pad 4 (year t) @ ''-'' @ pad 2 (month t) @ ''-'' @ pad 2 (day t)"
  by (simp add: datetime_string_with_format_def)

lemma no_slash_digit: "is_digit c \<Longrightarrow> c \<noteq> CHR ''/''"
  by (auto simp: is_digit_def)

lemma monthly_path:
  "path_append tp (datetime_string_with_format ''%Y-%m'' t) =
     tp @ [pad 4 (year t) @ ''-'' @ pad 2 (month t)]"
proof -
  have "CHR ''/'' \<notin> set (pad 4 (year t) @ ''-'' @ pad 2 (month t))"
    using pad_digits no_slash_digit by auto
  then show ?thesis
    by (simp add: path_append_def month_string components_plain pad_nonempty)
qed


subsection \<open>The scan\<close>

lemma scan_loop_skip:
  "\<not> regex_match name pat \<Longrightarrow>
     scan_loop pat (xs @ name # ys) k = scan_loop pat (xs @ ys) k"
  by (induction xs arbitrary: k) (auto split: option.splits)

lemma scan_loop_filter:
  "scan_loop pat names k = scan_loop pat (filter (\<lambda>n. regex_match n pat) names) k"
  by (induction names arbitrary: k) (auto split: option.splits)

lemma scan_loop_all_matching:
  assumes "\<forall>n \<in> set ms. regex_match n pat \<and> parse_index n \<noteq> None"
  shows "scan_loop pat ms k = Inr (Max (insert k ((\<lambda>n. the (parse_index n) + 1) ` set ms)))"
  using assms
proof (induction ms arbitrary: k)
  case Nil
  then show ?case by simp
next
  case (Cons m ms)
  then obtain i where i: "parse_index m = Some i" by auto
  let ?rest = "(\<lambda>n. the (parse_index n) + 1) ` set ms"
  have fin: "finite ?rest" by simp
  have "scan_loop pat (m # ms) k = scan_loop pat ms (if i \<ge> k then i + 1 else k)"
    using Cons.prems i by simp
  also have "\<dots> = Inr (Max (insert (if i \<ge> k then i + 1 else k) ?rest))"
    using Cons by simp
  also have "Max (insert (if i \<ge> k then i + 1 else k) ?rest) = Max (insert k (insert (i + 1) ?rest))"
  proof (cases "?rest = {}")
    case True
    then show ?thesis by (simp add: max_def)
  next
    case False
    then show ?thesis using fin by (auto simp: max_def)
  qed
  finally show ?case using i by simp
qed

lemma scan_loop_next_index:
  assumes "\<forall>n \<in> set names. regex_match n pat \<longrightarrow> parse_index n \<noteq> None"
  shows "scan_loop pat names 0 =
     Inr (let ms = filter (\<lambda>n. regex_match n pat) names
          in if ms = [] then 0 else Max (set (map (\<lambda>n. the (parse_index n)) ms)) + 1)"
proof -
  let ?ms = "filter (\<lambda>n. regex_match n pat) names"
  have all: "\<forall>n \<in> set ?ms. regex_match n pat \<and> parse_index n \<noteq> None"
    using assms by simp
  have "scan_loop pat names 0 = scan_loop pat ?ms 0"
    by (rule scan_loop_filter)
  also have "\<dots> = Inr (Max (insert 0 ((\<lambda>n. the (parse_index n) + 1) ` set ?ms)))"
    using all by (rule scan_loop_all_matching)
  also have "Max (insert 0 ((\<lambda>n. the (parse_index n) + 1) ` set ?ms)) =
      (if ?ms = [] then 0 else Max (set (map (\<lambda>n. the (parse_index n)) ?ms)) + 1)"
  proof (cases "?ms = []")
    case True
    then show ?thesis by simp
  next
    case False
    let ?I = "(\<lambda>n. the (parse_index n)) ` set ?ms"
    have "set ?ms \<noteq> {}" using False by (simp only: set_empty) simp
    then have ne: "?I \<noteq> {}" by simp
    have fin: "finite ?I" by simp
    have img: "(\<lambda>n. the (parse_index n) + 1) ` set ?ms = (\<lambda>i. i + 1) ` ?I"
      by (simp add: image_image)
    have "Max ((\<lambda>i. i + 1) ` ?I) = Max ?I + 1"
      using fin ne by (simp add: mono_Max_commute [symmetric] mono_def)
    moreover have "Max (insert 0 ((\<lambda>i. i + 1) ` ?I)) = Max ((\<lambda>i. i + 1) ` ?I)"
      using fin ne by (simp add: max_def)
    ultimately show ?thesis using False img by simp
  qed
  finally show ?thesis by (simp add: Let_def)
qed

lemma date_prefix: "datetime_string_with_format ''%Y-%m-%d'' t = yyyy_mm_dd t"
  by (simp add: date_string yyyy_mm_dd_def)

lemma monthly_dir: "path_append tp (datetime_string_with_format ''%Y-%m'' t) = tp @ [yyyy_mm t]"
  by (simp add: monthly_path yyyy_mm_def)

lemma generate_filepath_cases:
  "generate_filepath s fs clk =
     (case regex_compile (pattern_string (yyyy_mm_dd (fst clk)) (file_name_suffix s)) of
        None \<Rightarrow> Inl Regex_Unmodelled
      | Some pat \<Rightarrow>
          (case scan_next_index fs (target_path s @ [yyyy_mm (snd clk)]) pat of
             Inl e \<Rightarrow> Inl e
           | Inr n \<Rightarrow>
               Inr (path_append (target_path s @ [yyyy_mm (snd clk)])
                      (indexed_name (yyyy_mm_dd (fst clk)) n (file_name_suffix s)))))"
  by (simp add: generate_filepath_def Let_def date_prefix monthly_dir
      cong: option.case_cong sum.case_cong)


lemma atoi_no_number:
  assumes "\<not> is_digit c" "\<not> is_space c" "c \<noteq> CHR ''+''" "c \<noteq> CHR ''-''"
  shows "atoi (c # cs) = Some 0"
  using assms by (simp add: atoi_def digits_val_def Let_def)

lemma atoi_empty: "atoi [] = Some 0"
  by (simp add: atoi_def digits_val_def)

lemma parse_index_no_number:
  assumes b: "find_char name CHR ''['' = Some b"
    and e: "find_char name CHR '']'' = Some e"
    and c: "b + 1 < length name \<longrightarrow>
            \<not> is_digit (name ! (b + 1)) \<and> \<not> is_space (name ! (b + 1))
            \<and> name ! (b + 1) \<noteq> CHR ''+'' \<and> name ! (b + 1) \<noteq> CHR ''-''"
  shows "parse_index name = Some 0"
proof -
  define n where "n = (if b \<le> e then e - b else 2 ^ 64 - (b - e))"
  have "atoi (take n (drop (b + 1) name)) = Some 0"
  proof (cases "take n (drop (b + 1) name)")
    case Nil
    show ?thesis unfolding Nil by (rule atoi_empty)
  next
    case (Cons x xs)
    then have ne: "drop (b + 1) name \<noteq> []" by auto
    then have lt: "b + 1 < length name" by simp
    have "x = hd (drop (b + 1) name)"
      using Cons ne by (cases "drop (b + 1) name"; cases n) auto
    then have "x = name ! (b + 1)"
      using lt by (simp add: hd_drop_conv_nth)
    with c lt Cons show ?thesis by (simp add: atoi_no_number)
  qed
  then show ?thesis
    using b e by (simp add: parse_index_def n_def Let_def)
qed

subsection \<open>Plain suffixes\<close>

lemma compile_literals:
  "plain s \<Longrightarrow> regex_compile_from Top acc (s @ t) = regex_compile_from Top (rev (lits s) @ acc) t"
proof (induction s arbitrary: acc)
  case Nil
  then show ?case by (simp add: lits_def)
next
  case (Cons c s)
  then have c: "literal_char c" and s: "plain s" by (simp_all add: plain_def)
  from c have "regex_compile_from Top acc ((c # s) @ t)
      = regex_compile_from Top ((Lit c, Once) # acc) (s @ t)"
    by (simp add: literal_char_def)
  with Cons.IH [OF s] show ?case by (simp add: lits_def)
qed

lemma compile_class:
  "regex_compile_from Top acc ((''['' @ [CHR 0x5C] @ ''['' @ [CHR 0x5C] @ '']0-9]*'') @ t)
     = regex_compile_from Top ((bracket_digits, ZeroOrMore) # acc) t"
  by (simp add: is_alnum_def quantify_def bracket_digits_def)

lemma compile_tail:
  "regex_compile_from Top acc ''.log''
     = Some (rev acc @ [(Any, Once)] @ lits ''log'')"
  by (simp add: lits_def)

lemma literal_digit: "is_digit c \<Longrightarrow> literal_char c"
  by (auto simp: is_digit_def literal_char_def)

lemma plain_date: "plain (yyyy_mm_dd t)"
  using pad_digits literal_digit by (auto simp: plain_def yyyy_mm_dd_def literal_char_def)

lemma compile_pattern:
  assumes "plain pre" "plain sfx"
  shows "regex_compile (pattern_string pre sfx)
     = Some (lits pre @ [(bracket_digits, ZeroOrMore)] @ lits (''_'' @ sfx) @ [(Any, Once)]
             @ lits ''log'')"
proof -
  have u: "plain (''_'' @ sfx)"
    using assms by (simp add: plain_def literal_char_def)
  have "regex_compile (pattern_string pre sfx)
      = regex_compile_from Top []
          (pre @ ((''['' @ [CHR 0x5C] @ ''['' @ [CHR 0x5C] @ '']0-9]*'')
                  @ ((''_'' @ sfx) @ ''.log'')))"
    by (simp add: regex_compile_def pattern_string_def)
  also have "\<dots> = regex_compile_from Top (rev (lits pre) @ [])
          ((''['' @ [CHR 0x5C] @ ''['' @ [CHR 0x5C] @ '']0-9]*'') @ ((''_'' @ sfx) @ ''.log''))"
    using assms(1) by (rule compile_literals)
  also have "\<dots> = regex_compile_from Top ((bracket_digits, ZeroOrMore) # rev (lits pre) @ [])
          ((''_'' @ sfx) @ ''.log'')"
    by (rule compile_class)
  also have "\<dots> = regex_compile_from Top
          (rev (lits (''_'' @ sfx)) @ (bracket_digits, ZeroOrMore) # rev (lits pre) @ []) ''.log''"
    using u by (rule compile_literals)
  also have "\<dots> = Some (rev (rev (lits (''_'' @ sfx)) @ (bracket_digits, ZeroOrMore) # rev (lits pre) @ [])
          @ [(Any, Once)] @ lits ''log'')"
    by (rule compile_tail)
  finally show ?thesis by simp
qed

lemma match_lits: "match_items (lits s @ items) (s @ w) = match_items items w"
  by (induction s) (simp_all add: lits_def)

lemma match_star_skip: "match_items items w \<Longrightarrow> match_items ((a, ZeroOrMore) # items) w"
  by (cases w) simp_all

lemma match_star:
  "\<forall>c \<in> set mid. atom_ok a c \<Longrightarrow> match_items items w \<Longrightarrow>
     match_items ((a, ZeroOrMore) # items) (mid @ w)"
  by (induction mid) (simp_all add: match_star_skip)

lemma match_pattern:
  assumes "\<forall>c \<in> set mid. atom_ok bracket_digits c"
  shows "match_items
      (lits pre @ [(bracket_digits, ZeroOrMore)] @ lits (''_'' @ sfx) @ [(Any, Once)] @ lits ''log'')
      (pre @ mid @ (''_'' @ sfx) @ ''.log'')"
proof -
  have "match_items ([(Any, Once)] @ lits ''log'') ''.log''"
    by (simp add: lits_def)
  then have "match_items (lits (''_'' @ sfx) @ [(Any, Once)] @ lits ''log'') ((''_'' @ sfx) @ ''.log'')"
    by (simp only: match_lits)
  with assms have "match_items ((bracket_digits, ZeroOrMore) # lits (''_'' @ sfx) @ [(Any, Once)] @ lits ''log'')
      (mid @ (''_'' @ sfx) @ ''.log'')"
    by (rule match_star)
  then show ?thesis
    using match_lits [of pre "[(bracket_digits, ZeroOrMore)] @ lits (''_'' @ sfx) @ [(Any, Once)] @ lits ''log''"
        "mid @ (''_'' @ sfx) @ ''.log''"]
    by simp
qed

lemma digit_val_digit_char: "d < 10 \<Longrightarrow> digit_val (digit_char d) = d"
  by (simp add: digit_val_def digit_char_def)

lemma digits_val_snoc: "digits_val (ds @ [c]) = 10 * digits_val ds + digit_val c"
  by (simp add: digits_val_def)

lemma digits_val_dec: "digits_val (dec n) = n"
proof (induction n rule: dec.induct)
  case (1 n)
  show ?case
  proof (cases "n < 10")
    case True
    then show ?thesis
      by (subst dec.simps) (simp add: digits_val_def digit_val_digit_char)
  next
    case False
    then have "digits_val (dec n) = 10 * digits_val (dec (n div 10)) + digit_val (digit_char (n mod 10))"
      by (subst dec.simps) (simp add: digits_val_snoc)
    with False 1 show ?thesis by (simp add: digit_val_digit_char)
  qed
qed

lemma not_space_digit: "is_digit c \<Longrightarrow> \<not> is_space c"
  by (auto simp: is_digit_def is_space_def)

lemma not_sign_digit: "is_digit c \<Longrightarrow> c \<noteq> CHR ''-'' \<and> c \<noteq> CHR ''+''"
  by (auto simp: is_digit_def)

lemma atoi_dec:
  assumes "\<not> is_digit c"
  shows "atoi (dec n @ c # rest) = (if n < 2 ^ 31 then Some (int n) else None)"
proof -
  obtain d ds where d: "dec n = d # ds"
    using dec_nonempty [of n] by (cases "dec n") auto
  have dig: "\<forall>x \<in> set (dec n). is_digit x" by (rule dec_digits)
  then have dd: "is_digit d" using d by simp
  have dw: "dropWhile is_space (dec n @ c # rest) = dec n @ c # rest"
    using d dd not_space_digit by simp
  have tw: "takeWhile is_digit (dec n @ c # rest) = dec n"
    using dig assms by (simp add: takeWhile_append2)
  have hd: "hd (dec n @ c # rest) = d" using d by simp
  have "atoi (dec n @ c # rest) =
      (if - (2 ^ 31) \<le> int (digits_val (dec n)) \<and> int (digits_val (dec n)) < 2 ^ 31
       then Some (int (digits_val (dec n))) else None)"
    unfolding atoi_def dw Let_def
    using not_sign_digit [OF dd] tw d by simp
  then show ?thesis
    by (simp add: digits_val_dec)
qed

lemma find_char_append:
  "c \<notin> set s \<Longrightarrow> find_char (s @ c # t) c = Some (length s)"
  by (induction s) auto

lemma find_char_none: "c \<notin> set s \<Longrightarrow> find_char s c = None"
  by (induction s) auto

lemma no_bracket_literal: "literal_char c \<Longrightarrow> c \<noteq> CHR ''['' \<and> c \<noteq> CHR '']''"
  by (auto simp: literal_char_def)

lemma parse_index_unindexed:
  assumes "plain pre" "plain sfx"
  shows "parse_index (indexed_name pre 0 sfx) = Some 0"
proof -
  have "CHR ''['' \<notin> set (indexed_name pre 0 sfx)"
    using assms no_bracket_literal by (auto simp: indexed_name_def plain_def)
  then have "find_char (indexed_name pre 0 sfx) CHR ''['' = None"
    by (rule find_char_none)
  then show ?thesis by (simp add: parse_index_def)
qed

lemma parse_index_indexed:
  assumes pre: "plain pre" and n: "0 < n"
  shows "parse_index (indexed_name pre n sfx)
     = (if n < 2 ^ 31 then Some n else None)"
proof -
  let ?rest = "''_'' @ sfx @ ''.log''"
  have name: "indexed_name pre n sfx = pre @ CHR ''['' # (dec n @ CHR '']'' # ?rest)"
    using n by (simp add: indexed_name_def)
  have nb: "CHR ''['' \<notin> set pre" and ne: "CHR '']'' \<notin> set pre"
    using pre no_bracket_literal by (auto simp: plain_def)
  have dig: "\<forall>x \<in> set (dec n). is_digit x" by (rule dec_digits)
  have nd: "CHR '']'' \<notin> set (dec n)"
    using dig by (auto simp: is_digit_def)
  have b: "find_char (indexed_name pre n sfx) CHR ''['' = Some (length pre)"
    unfolding name using nb by (rule find_char_append)
  have "find_char ((pre @ CHR ''['' # dec n) @ CHR '']'' # ?rest) CHR '']''
      = Some (length (pre @ CHR ''['' # dec n))"
    using ne nd by (intro find_char_append) simp
  then have e: "find_char (indexed_name pre n sfx) CHR '']'' = Some (length pre + 1 + length (dec n))"
    by (simp add: name)
  have sub: "take (length pre + 1 + length (dec n) - length pre)
        (drop (length pre + 1) (indexed_name pre n sfx)) = dec n @ [CHR '']'']"
    by (simp add: name)
  have "atoi (dec n @ CHR '']'' # []) = (if n < 2 ^ 31 then Some (int n) else None)"
    by (rule atoi_dec) (simp add: is_digit_def)
  then show ?thesis
    using b e sub by (simp add: parse_index_def Let_def)
qed

lemma scan_loop_mono: "scan_loop pat names k = Inr n \<Longrightarrow> k \<le> n"
proof (induction names arbitrary: k)
  case Nil
  then show ?case by simp
next
  case (Cons x xs)
  show ?case
  proof (cases "regex_match x pat")
    case False
    with Cons show ?thesis by simp
  next
    case True
    then obtain i where i: "parse_index x = Some i"
      using Cons.prems by (cases "parse_index x") simp_all
    with True Cons.prems have "scan_loop pat xs (if i \<ge> k then i + 1 else k) = Inr n" by simp
    from Cons.IH [OF this] show ?thesis by (simp split: if_splits)
  qed
qed

lemma scan_loop_above:
  "scan_loop pat names k = Inr n \<Longrightarrow> x \<in> set names \<Longrightarrow> regex_match x pat \<Longrightarrow>
     \<exists>i. parse_index x = Some i \<and> i < n"
proof (induction names arbitrary: k)
  case Nil
  then show ?case by simp
next
  case (Cons y ys)
  show ?case
  proof (cases "regex_match y pat")
    case False
    with Cons.prems have "scan_loop pat ys k = Inr n" and "x \<in> set ys" by auto
    with Cons.IH Cons.prems(3) show ?thesis by blast
  next
    case True
    then obtain j where j: "parse_index y = Some j"
      using Cons.prems(1) by (cases "parse_index y") simp_all
    with True Cons.prems(1) have rest: "scan_loop pat ys (if j \<ge> k then j + 1 else k) = Inr n"
      by simp
    show ?thesis
    proof (cases "x = y")
      case True
      from scan_loop_mono [OF rest] have "j < n" by (simp split: if_splits)
      with True j show ?thesis by simp
    next
      case False
      with Cons.prems(2) have "x \<in> set ys" by simp
      with Cons.IH [OF rest] Cons.prems(3) show ?thesis by blast
    qed
  qed
qed

lemma indexed_name_no_slash:
  assumes "plain pre" "plain sfx"
  shows "components (indexed_name pre n sfx) = [indexed_name pre n sfx]"
proof -
  have "\<forall>x \<in> set (dec n). x \<noteq> CHR ''/''"
    using dec_digits no_slash_digit by blast
  moreover have "\<forall>x \<in> set pre \<union> set sfx. x \<noteq> CHR ''/''"
    using assms by (auto simp: plain_def literal_char_def)
  ultimately have "CHR ''/'' \<notin> set (indexed_name pre n sfx)"
    by (auto simp: indexed_name_def)
  moreover have "indexed_name pre n sfx \<noteq> []"
    by (simp add: indexed_name_def)
  ultimately show ?thesis by (rule components_plain)
qed

lemma indexed_name_matches:
  assumes "plain pre" "plain sfx"
  shows "regex_match (indexed_name pre n sfx)
     (lits pre @ [(bracket_digits, ZeroOrMore)] @ lits (''_'' @ sfx) @ [(Any, Once)] @ lits ''log'')"
proof -
  let ?mid = "if n > 0 then ''['' @ dec n @ '']'' else []"
  have "\<forall>c \<in> set (dec n). atom_ok bracket_digits c"
    using dec_digits by (auto simp: bracket_digits_def is_digit_def)
  then have "\<forall>c \<in> set ?mid. atom_ok bracket_digits c"
    by (auto simp: bracket_digits_def)
  then have "match_items
      (lits pre @ [(bracket_digits, ZeroOrMore)] @ lits (''_'' @ sfx) @ [(Any, Once)] @ lits ''log'')
      (pre @ ?mid @ (''_'' @ sfx) @ ''.log'')"
    by (rule match_pattern)
  then show ?thesis
    by (simp add: regex_match_def indexed_name_def)
qed

lemma file_is_entry:
  assumes "is_file fs p" "p \<noteq> []"
  shows "filename p \<in> set (entries fs (parent_path p))"
proof -
  have "p \<in> set (map fst (files fs))"
    using assms(1) by (auto simp: is_file_def dest: map_of_SomeD intro: rev_image_eqI)
  then show ?thesis
    using assms(2) by (auto simp: entries_def)
qed

subsection \<open>Names of the spec's form\<close>

lemma strip_prefix_Some: "strip_prefix p s = Some r \<Longrightarrow> s = p @ r"
  by (auto simp: strip_prefix_def split: if_splits) (metis append_take_drop_id)

lemma spec_index_forms:
  assumes "spec_index pre sfx name = Some i"
  shows "(name = pre @ ''_'' @ sfx @ ''.log'' \<and> i = 0)
     \<or> (\<exists>ds. ds \<noteq> [] \<and> (\<forall>c \<in> set ds. is_digit c)
              \<and> name = pre @ ''['' @ ds @ '']_'' @ sfx @ ''.log'' \<and> i = digits_val ds)"
proof -
  obtain rest where rest: "strip_prefix pre name = Some rest"
    using assms by (auto simp: spec_index_def split: option.splits)
  then have name: "name = pre @ rest" by (rule strip_prefix_Some)
  show ?thesis
  proof (cases "rest = ''_'' @ sfx @ ''.log''")
    case True
    with assms rest name show ?thesis by (simp add: spec_index_def)
  next
    case False
    then obtain r where r: "strip_prefix ''['' rest = Some r"
      and ne: "takeWhile is_digit r \<noteq> []"
      and tl: "dropWhile is_digit r = '']_'' @ sfx @ ''.log''"
      and i: "i = digits_val (takeWhile is_digit r)"
      using assms rest by (auto simp: spec_index_def split: option.splits if_splits)
    have "rest = ''['' @ r" using r by (rule strip_prefix_Some)
    moreover have "r = takeWhile is_digit r @ dropWhile is_digit r" by simp
    ultimately have "name = pre @ ''['' @ takeWhile is_digit r @ '']_'' @ sfx @ ''.log''"
      using name tl by simp
    moreover have "\<forall>c \<in> set (takeWhile is_digit r). is_digit c"
      by (auto dest: set_takeWhileD)
    ultimately show ?thesis using ne i by blast
  qed
qed

lemma atoi_digits:
  assumes "ds \<noteq> []" "\<forall>x \<in> set ds. is_digit x" "\<not> is_digit c"
  shows "atoi (ds @ c # rest) = (if digits_val ds < 2 ^ 31 then Some (int (digits_val ds)) else None)"
proof -
  obtain d ds' where d: "ds = d # ds'" using assms(1) by (cases ds) auto
  then have dd: "is_digit d" using assms(2) by simp
  have dw: "dropWhile is_space (ds @ c # rest) = ds @ c # rest"
    using d dd not_space_digit by simp
  have tw: "takeWhile is_digit (ds @ c # rest) = ds"
    using assms(2,3) by (simp add: takeWhile_append2)
  have "atoi (ds @ c # rest) =
      (if - (2 ^ 31) \<le> int (digits_val ds) \<and> int (digits_val ds) < 2 ^ 31
       then Some (int (digits_val ds)) else None)"
    unfolding atoi_def dw Let_def
    using not_sign_digit [OF dd] tw d by simp
  then show ?thesis by simp
qed

lemma parse_index_bracketed:
  assumes pre: "plain pre" and ne: "ds \<noteq> []" and dig: "\<forall>x \<in> set ds. is_digit x"
  shows "parse_index (pre @ ''['' @ ds @ '']_'' @ sfx @ ''.log'')
     = (if digits_val ds < 2 ^ 31 then Some (digits_val ds) else None)"
proof -
  let ?rest = "''_'' @ sfx @ ''.log''"
  let ?name = "pre @ ''['' @ ds @ '']_'' @ sfx @ ''.log''"
  have name: "?name = pre @ CHR ''['' # (ds @ CHR '']'' # ?rest)" by simp
  have nb: "CHR ''['' \<notin> set pre" and ne': "CHR '']'' \<notin> set pre"
    using pre no_bracket_literal by (auto simp: plain_def)
  have nd: "CHR '']'' \<notin> set ds"
    using dig by (auto simp: is_digit_def)
  have b: "find_char ?name CHR ''['' = Some (length pre)"
    unfolding name using nb by (rule find_char_append)
  have "find_char ((pre @ CHR ''['' # ds) @ CHR '']'' # ?rest) CHR '']''
      = Some (length (pre @ CHR ''['' # ds))"
    using ne' nd by (intro find_char_append) simp
  then have e: "find_char ?name CHR '']'' = Some (length pre + 1 + length ds)"
    by simp
  have sub: "take (length pre + 1 + length ds - length pre) (drop (length pre + 1) ?name)
      = ds @ [CHR '']'']"
    by simp
  have "atoi (ds @ CHR '']'' # []) = (if digits_val ds < 2 ^ 31 then Some (int (digits_val ds)) else None)"
    using ne dig by (rule atoi_digits) (simp add: is_digit_def)
  then show ?thesis
    using b e sub by (simp add: parse_index_def Let_def)
qed

lemma spec_form_matches:
  assumes pre: "plain pre" and sfx: "plain sfx"
    and i: "spec_index pre sfx name = Some i"
  shows "regex_match name
       (lits pre @ [(bracket_digits, ZeroOrMore)] @ lits (''_'' @ sfx) @ [(Any, Once)] @ lits ''log'')
     \<and> parse_index name = (if i < 2 ^ 31 then Some i else None)"
proof -
  let ?pat = "lits pre @ [(bracket_digits, ZeroOrMore)] @ lits (''_'' @ sfx) @ [(Any, Once)]
      @ lits ''log''"
  from spec_index_forms [OF i] show ?thesis
  proof (elim disjE conjE exE)
    assume name: "name = pre @ ''_'' @ sfx @ ''.log''" and z: "i = 0"
    have "match_items ?pat (pre @ [] @ (''_'' @ sfx) @ ''.log'')"
      by (rule match_pattern) simp
    moreover have "parse_index (indexed_name pre 0 sfx) = Some 0"
      using pre sfx by (rule parse_index_unindexed)
    ultimately show ?thesis
      using name z by (simp add: regex_match_def indexed_name_def)
  next
    fix ds
    assume ne: "ds \<noteq> []" and dig: "\<forall>c \<in> set ds. is_digit c"
      and name: "name = pre @ ''['' @ ds @ '']_'' @ sfx @ ''.log''" and iv: "i = digits_val ds"
    have "\<forall>c \<in> set (''['' @ ds @ '']''). atom_ok bracket_digits c"
      using dig by (auto simp: bracket_digits_def is_digit_def)
    then have "match_items ?pat (pre @ (''['' @ ds @ '']'') @ (''_'' @ sfx) @ ''.log'')"
      by (rule match_pattern)
    moreover have "parse_index (pre @ ''['' @ ds @ '']_'' @ sfx @ ''.log'')
        = (if digits_val ds < 2 ^ 31 then Some (digits_val ds) else None)"
      using pre ne dig by (rule parse_index_bracketed)
    ultimately show ?thesis
      using name iv by (simp add: regex_match_def)
  qed
qed

subsection \<open>The first record of the example sink\<close>

lemma svc_first_path:
  "generate_filepath svc_sink empty_disk (noon_jan01, noon_jan01) = Inr svc_file"
  by code_simp

lemma svc_first_dirs: "fst (create_directories empty_disk (parent_path svc_file)) = None"
  by code_simp

lemma svc_first_open:
  "can_open (snd (create_directories empty_disk (parent_path svc_file))) svc_file"
  by code_simp

lemma svc_first_closed: "\<not> is_open (file svc_sink)"
  by (simp add: svc_sink_def cilog_backend_init_def is_open_def)

lemma svc_first_record:
  "consume svc_sink empty_disk (noon_jan01, noon_jan01) rec msg =
     Returned
       (svc_sink\<lparr>file := \<lparr>handle = Some svc_file, good = True\<rparr>, file_path := svc_file,
          characters_written := of_nat (length msg) + 1\<rparr>)
       ((snd (create_directories empty_disk (parent_path svc_file)))
          \<lparr>files := AList.update svc_file (msg @ [CHR 0x0A]) (files empty_disk)\<rparr>)"
  using svc_first_closed svc_first_path svc_first_dirs svc_first_open
  by (intro consume_opening) (simp_all add: empty_disk_def)

section \<open>Properties\<close>

subsection \<open>Rotation by size\<close>

text \<open>
  C1 says that when the byte counter plus the length of record N reaches the rotation
  size, record N goes to a newly opened file and the file open before keeps records 1 to
  N-1.  The name of the new file comes from a scan that matches the existing names
  against a regular expression built from the suffix as it is.  With the suffix \<open>a+\<close> the
  expression does not match the names the sink itself creates: the scan yields index 0
  again, the same path is opened again and truncated.  Here the rotation size is 50: the
  first record \<open>AAAA\<close> is written to \<open>2024-01-01_a+.log\<close>; the second, of 50 bytes, rotates,
  and afterwards the only file is \<open>2024-01-01_a+.log\<close> holding the second record alone.
\<close>

theorem rotation_reopens_same_file_with_special_suffix:
  "observe
     (consume_all plus_sink empty_disk
        [((noon_jan01, noon_jan01), rec_at noon_jan01, ''AAAA''),
         ((noon_jan01, noon_jan01), rec_at noon_jan01, replicate 50 CHR ''B'')])
   = (None, plus_file, Some plus_file, True, 51, [[''var''], [''var'', ''log''], jan_dir],
      [(plus_file, replicate 50 CHR ''B'' @ [CHR 0x0A])])"
  by code_simp

text \<open>
  With a plain suffix the scan does see the files of the day: the name that
  \<^verbatim>\<open>generate_filepath\<close> returns is in the monthly directory and is the name of none of
  its entries.
\<close>

theorem generated_name_is_free:
  assumes sfx: "plain (file_name_suffix s)"
    and gen: "generate_filepath s fs clk = Inr p"
  shows "\<exists>name. p = target_path s @ [yyyy_mm (snd clk), name]
     \<and> (target_path s @ [yyyy_mm (snd clk)] \<in> set (dirs fs) \<longrightarrow>
          name \<notin> set (entries fs (target_path s @ [yyyy_mm (snd clk)])))"
proof -
  let ?pre = "yyyy_mm_dd (fst clk)"
  let ?sfx = "file_name_suffix s"
  let ?d = "target_path s @ [yyyy_mm (snd clk)]"
  let ?pat = "lits ?pre @ [(bracket_digits, ZeroOrMore)] @ lits (''_'' @ ?sfx) @ [(Any, Once)]
      @ lits ''log''"
  have pre: "plain ?pre" by (rule plain_date)
  have pat: "regex_compile (pattern_string ?pre ?sfx) = Some ?pat"
    using pre sfx by (rule compile_pattern)
  obtain n where scan: "scan_next_index fs ?d ?pat = Inr n"
    and p: "p = path_append ?d (indexed_name ?pre n ?sfx)"
    using gen pat by (auto simp: generate_filepath_cases split: sum.splits)
  let ?name = "indexed_name ?pre n ?sfx"
  have p': "p = ?d @ [?name]"
    using p indexed_name_no_slash [OF pre sfx] by (simp add: path_append_def)
  have "?name \<notin> set (entries fs ?d)" if d: "?d \<in> set (dirs fs)"
  proof
    assume mem: "?name \<in> set (entries fs ?d)"
    have loop: "scan_loop ?pat (entries fs ?d) 0 = Inr n"
      using scan d by (simp add: scan_next_index_def split: if_splits)
    have "regex_match ?name ?pat"
      using pre sfx by (rule indexed_name_matches)
    with loop mem obtain i where i: "parse_index ?name = Some i" and lt: "i < n"
      using scan_loop_above by blast
    show False
    proof (cases "n = 0")
      case True
      with lt show False by simp
    next
      case False
      then have "parse_index ?name = (if n < 2 ^ 31 then Some n else None)"
        using pre by (simp add: parse_index_indexed)
      with i lt show False by (simp split: if_splits)
    qed
  qed
  with p' show ?thesis by auto
qed

text \<open>
  So, with a plain suffix, whenever \<^verbatim>\<open>consume\<close> opens a file (the first record, a
  rotation, a new attempt after a failed open) and directory creation, open and write
  succeed, the file it opens is a new one: every file \<open>q\<close> that exists in a directory,
  the one just closed included, keeps its content, and the record is alone in the new
  file.
\<close>

theorem opened_file_is_fresh:
  assumes sfx: "plain (file_name_suffix s)"
    and must_open: "\<not> is_open (file s) \<or> rotation_due s msg"
    and prev: "is_file fs q" "parent_path q \<in> set (dirs fs)" "q \<noteq> []"
    and path: "generate_filepath s fs clk = Inr p"
    and made: "fst (create_directories fs (parent_path p)) = None"
    and openable: "can_open (snd (create_directories fs (parent_path p))) p"
    and writable: "\<not> no_write fs p"
  shows "\<exists>s' fs'. consume s fs clk rec msg = Returned s' fs'
     \<and> handle (file s') = Some p \<and> p \<noteq> q
     \<and> content fs' q = content fs q
     \<and> content fs' p = msg @ [CHR 0x0A]
     \<and> characters_written s' = of_nat (length msg) + 1"
proof -
  obtain name where p: "p = target_path s @ [yyyy_mm (snd clk), name]"
    and free: "target_path s @ [yyyy_mm (snd clk)] \<in> set (dirs fs) \<longrightarrow>
        name \<notin> set (entries fs (target_path s @ [yyyy_mm (snd clk)]))"
    using generated_name_is_free [OF sfx path] by blast
  have neq: "p \<noteq> q"
  proof
    assume "p = q"
    with p prev file_is_entry [of fs q] free show False
      by (simp add: parent_path_def filename_def butlast_append)
  qed
  have "consume s fs clk rec msg =
     Returned
       (s\<lparr>file := \<lparr>handle = Some p, good = True\<rparr>, file_path := p,
          characters_written := of_nat (length msg) + 1\<rparr>)
       ((snd (create_directories fs (parent_path p)))
          \<lparr>files := AList.update p (msg @ [CHR 0x0A]) (files fs)\<rparr>)"
    using must_open path made openable writable by (intro consume_opening) simp_all
  with neq show ?thesis
    by (simp add: content_def update_conv')
qed

subsection \<open>No rotation by calendar day\<close>




subsection \<open>Opening a file\<close>

text \<open>
  C3 as stated fails: \<^verbatim>\<open>open\<close> is called without a mode, so an existing file is truncated,
  and the counter is set from \<^verbatim>\<open>tellp()\<close>, which is 0 then.  A file of 9 bytes at the
  computed path holds only the new record after the call, and the counter is 5, not 14.
\<close>

theorem open_truncates_existing_file:
  "content (jan_disk [(plus_file, ''old line'' @ [CHR 0x0A])]) plus_file = ''old line'' @ [CHR 0x0A]
   \<and> observe
     (consume plus_sink (jan_disk [(plus_file, ''old line'' @ [CHR 0x0A])])
        (noon_jan01, noon_jan01) (rec_at noon_jan01) ''AAAA'')
   = (None, plus_file, Some plus_file, True, 5, [[''var''], [''var'', ''log''], jan_dir],
      [(plus_file, ''AAAA'' @ [CHR 0x0A])])"
  by code_simp

text \<open>
  C3, as the code has it: when \<^verbatim>\<open>consume\<close> opens the computed path (no file was open, or
  it has just rotated) and directory creation, open and write succeed, the file holds
  exactly the record and its newline afterwards, whatever was at that path before, and
  the counter is the length of the record plus one.
\<close>

theorem open_starts_from_empty:
  assumes "\<not> is_open (file s) \<or> rotation_due s msg"
    and "generate_filepath s fs clk = Inr p"
    and "fst (create_directories fs (parent_path p)) = None"
    and "can_open (snd (create_directories fs (parent_path p))) p"
    and "\<not> no_write fs p"
  shows "\<exists>s' fs'. consume s fs clk rec msg = Returned s' fs'
     \<and> handle (file s') = Some p \<and> file_path s' = p
     \<and> content fs' p = msg @ [CHR 0x0A]
     \<and> characters_written s' = of_nat (length msg) + 1"
  using consume_opening [OF assms, of rec] by (simp add: content_def update_conv')

text \<open>Witness for C3: the hypotheses hold for a sink that finds a file at the computed path.\<close>

theorem open_starts_from_empty_witness:
  "is_file (jan_disk [(plus_file, ''old line'' @ [CHR 0x0A])]) plus_file
   \<and> (\<exists>s' fs'. consume plus_sink (jan_disk [(plus_file, ''old line'' @ [CHR 0x0A])])
          (noon_jan01, noon_jan01) (rec_at noon_jan01) ''AAAA'' = Returned s' fs'
        \<and> handle (file s') = Some plus_file
        \<and> content fs' plus_file = ''AAAA'' @ [CHR 0x0A]
        \<and> characters_written s' = 5)"
proof -
  let ?fs = "jan_disk [(plus_file, ''old line'' @ [CHR 0x0A])]"
  have h0: "is_file ?fs plus_file" by code_simp
  have h1: "\<not> is_open (file plus_sink) \<or> rotation_due plus_sink ''AAAA''" by code_simp
  have h2: "generate_filepath plus_sink ?fs (noon_jan01, noon_jan01) = Inr plus_file" by code_simp
  have h3: "fst (create_directories ?fs (parent_path plus_file)) = None" by code_simp
  have h4: "can_open (snd (create_directories ?fs (parent_path plus_file))) plus_file" by code_simp
  have h5: "\<not> no_write ?fs plus_file" by code_simp
  show ?thesis
    using open_starts_from_empty [OF h1 h2 h3 h4 h5, of "rec_at noon_jan01"] h0 by auto
qed

text \<open>
  C7 says that after a failed open the next call computes the path afresh and picks the
  next free index if the file exists by then.  The first call below cannot open the file:
  it returns, nothing is written, no file is open.  Before the second call another
  process has created the file.  The second call does compute the path afresh, but with
  the suffix \<open>a+\<close> the scan does not see the file (as for C1): the index is 0 again, and
  the file of the other process is opened and truncated.
\<close>

theorem retry_reuses_index_with_special_suffix:
  "observe
     (consume plus_sink (empty_disk\<lparr>no_open := (\<lambda>p. True)\<rparr>)
        (noon_jan01, noon_jan01) (rec_at noon_jan01) ''AAAA'')
   = (None, plus_file, None, False, 0, [[''var''], [''var'', ''log''], jan_dir], [])
   \<and> observe
     (consume
        (sink_of (consume plus_sink (empty_disk\<lparr>no_open := (\<lambda>p. True)\<rparr>)
                    (noon_jan01, noon_jan01) (rec_at noon_jan01) ''AAAA''))
        (jan_disk [(plus_file, ''other'' @ [CHR 0x0A])])
        (noon_jan01, noon_jan01) (rec_at noon_jan01) ''BBBB'')
   = (None, plus_file, Some plus_file, True, 5, [[''var''], [''var'', ''log''], jan_dir],
      [(plus_file, ''BBBB'' @ [CHR 0x0A])])"
  by code_simp

subsection \<open>Failures\<close>




subsection \<open>The generated path\<close>

text \<open>
  C5 says that the index of a generated path is one more than the greatest index among
  the existing files that match the day and the suffix.  The code finds these files with
  a regular expression that contains the suffix as it is.  For the sink with suffix \<open>a+\<close>
  the monthly directory below holds one file of that day and suffix,
  \<open>2024-01-01_a+.log\<close>, so the next index is 1 in the spec's words; the expression does not
  match that name, and \<^verbatim>\<open>generate_filepath\<close> returns index 0: the path of the file that
  exists.
\<close>

theorem next_index_misses_file_with_special_suffix:
  "entries (jan_disk [(plus_file, ''AAAA'' @ [CHR 0x0A])]) jan_dir = [''2024-01-01_a+.log'']
   \<and> spec_next_index ''2024-01-01'' ''a+''
        (entries (jan_disk [(plus_file, ''AAAA'' @ [CHR 0x0A])]) jan_dir) = 1
   \<and> generate_filepath plus_sink (jan_disk [(plus_file, ''AAAA'' @ [CHR 0x0A])])
        (noon_jan01, noon_jan01) = Inr (jan_dir @ [''2024-01-01_a+.log''])"
  by code_simp

text \<open>
  With the suffix \<open>app\<close> and the directory of the spec's example, \<open>2024-01-01_app.log\<close> and
  \<open>2024-01-01[1]_app.log\<close>, the code and the spec's words agree: the next index is 2.
\<close>

theorem next_index_example:
  "spec_next_index ''2024-01-01'' ''app'' (entries app_disk jan_dir) = 2
   \<and> map_option (scan_next_index app_disk jan_dir)
        (regex_compile (pattern_string ''2024-01-01'' ''app'')) = Some (Inr 2)
   \<and> generate_filepath app_sink app_disk (noon_jan01, noon_jan01)
        = Inr (jan_dir @ [''2024-01-01[2]_app.log''])"
  by code_simp

text \<open>
  More generally, with a plain suffix, a monthly directory that can be read, and no name
  that the pattern matches other than names of the spec's form with an index that fits
  \<^verbatim>\<open>int\<close>, \<^verbatim>\<open>generate_filepath\<close> returns the path with the next index of the spec's words.
\<close>

theorem next_index_agrees_for_plain_suffix:
  assumes sfx: "plain (file_name_suffix s)"
    and readable: "target_path s @ [yyyy_mm (snd clk)] \<in> set (dirs fs) \<longrightarrow>
        \<not> no_list fs (target_path s @ [yyyy_mm (snd clk)])"
    and spec_names:
      "\<forall>name \<in> set (entries fs (target_path s @ [yyyy_mm (snd clk)])).
          regex_match name
            (lits (yyyy_mm_dd (fst clk)) @ [(bracket_digits, ZeroOrMore)]
             @ lits (''_'' @ file_name_suffix s) @ [(Any, Once)] @ lits ''log'')
          \<longrightarrow> (\<exists>i. spec_index (yyyy_mm_dd (fst clk)) (file_name_suffix s) name = Some i
                  \<and> i < 2 ^ 31)"
  shows "generate_filepath s fs clk =
     Inr (path_append (target_path s @ [yyyy_mm (snd clk)])
            (indexed_name (yyyy_mm_dd (fst clk))
               (spec_next_index (yyyy_mm_dd (fst clk)) (file_name_suffix s)
                  (if target_path s @ [yyyy_mm (snd clk)] \<in> set (dirs fs)
                   then entries fs (target_path s @ [yyyy_mm (snd clk)]) else []))
               (file_name_suffix s)))"
proof -
  let ?pre = "yyyy_mm_dd (fst clk)"
  let ?sfx = "file_name_suffix s"
  let ?d = "target_path s @ [yyyy_mm (snd clk)]"
  let ?pat = "lits ?pre @ [(bracket_digits, ZeroOrMore)] @ lits (''_'' @ ?sfx) @ [(Any, Once)]
      @ lits ''log''"
  let ?names = "entries fs ?d"
  let ?spec = "spec_index ?pre ?sfx"
  have pre: "plain ?pre" by (rule plain_date)
  have pat: "regex_compile (pattern_string ?pre ?sfx) = Some ?pat"
    using pre sfx by (rule compile_pattern)
  have same: "regex_match n ?pat \<longleftrightarrow> ?spec n \<noteq> None" if "n \<in> set ?names" for n
    using that spec_names spec_form_matches [OF pre sfx, of n] by auto
  have idx: "the (parse_index n) = the (?spec n)" and def: "parse_index n \<noteq> None"
    if mem: "n \<in> set ?names" and m: "regex_match n ?pat" for n
  proof -
    obtain i where i: "?spec n = Some i" "i < 2 ^ 31"
      using mem m spec_names by blast
    then have "parse_index n = Some i"
      using spec_form_matches [OF pre sfx, of n i] by simp
    with i show "the (parse_index n) = the (?spec n)" and "parse_index n \<noteq> None" by simp_all
  qed
  have scan: "scan_next_index fs ?d ?pat =
      Inr (spec_next_index ?pre ?sfx (if ?d \<in> set (dirs fs) then ?names else []))"
  proof (cases "?d \<in> set (dirs fs)")
    case False
    then show ?thesis
      by (simp add: scan_next_index_def spec_next_index_def List.map_filter_def)
  next
    case True
    let ?ms = "filter (\<lambda>n. regex_match n ?pat) ?names"
    have "\<forall>n \<in> set ?names. regex_match n ?pat \<longrightarrow> parse_index n \<noteq> None"
      using def by blast
    then have loop: "scan_loop ?pat ?names 0 =
        Inr (if ?ms = [] then 0 else Max (set (map (\<lambda>n. the (parse_index n)) ?ms)) + 1)"
      using scan_loop_next_index [of ?names ?pat] by (simp add: Let_def)
    have ms: "?ms = filter (\<lambda>n. ?spec n \<noteq> None) ?names"
      using same by (intro filter_cong) auto
    have m1: "map (\<lambda>n. the (parse_index n)) ?ms = map (the \<circ> ?spec) ?ms"
      using idx by (intro map_cong) auto
    have found: "map (\<lambda>n. the (parse_index n)) ?ms = List.map_filter ?spec ?names"
    proof -
      have "List.map_filter ?spec ?names
          = map (the \<circ> ?spec) (filter (\<lambda>n. ?spec n \<noteq> None) ?names)"
        by (simp only: List.map_filter_def)
      also have "\<dots> = map (the \<circ> ?spec) ?ms"
        by (simp only: ms)
      also have "\<dots> = map (\<lambda>n. the (parse_index n)) ?ms"
        by (simp only: m1)
      finally show ?thesis by (rule sym)
    qed
    have "(?ms = []) = (List.map_filter ?spec ?names = [])"
      using found by (metis map_is_Nil_conv)
    with loop found have "scan_loop ?pat ?names 0 = Inr (spec_next_index ?pre ?sfx ?names)"
      by (simp add: spec_next_index_def Let_def)
    with True readable show ?thesis
      by (simp add: scan_next_index_def)
  qed
  show ?thesis
    using pat scan by (simp add: generate_filepath_cases)
qed

text \<open>
  C6 as stated fails: \<open>2024-01-01[x]_svc.log\<close> is not treated as a match with index 0.
  The pattern admits only brackets and digits between the date and the underscore, so
  the name does not match and counts for nothing: with it alone in the directory the
  next file has no index, whereas an unindexed file alone makes the next index 1.
\<close>

theorem bracket_x_is_not_counted:
  "generate_filepath svc_sink (jan_disk [(jan_dir @ [''2024-01-01[x]_svc.log''], [])])
      (noon_jan01, noon_jan01) = Inr (jan_dir @ [''2024-01-01_svc.log''])
   \<and> generate_filepath svc_sink (jan_disk [(jan_dir @ [''2024-01-01_svc.log''], [])])
      (noon_jan01, noon_jan01) = Inr (jan_dir @ [''2024-01-01[1]_svc.log''])"
  by code_simp

text \<open>
  C6, as the code has it: a name that does not match the pattern, such as
  \<open>2024-01-01[x]_svc.log\<close>, does not abort the scan and is skipped, it contributes nothing
  to the next index.  A name whose first \<open>[\<close> is not followed by a digit, a sign or white
  space has index 0; so the matching name \<open>2024-01-01[]_svc.log\<close> counts like an unindexed
  file and makes the next index 1.
\<close>

theorem scan_skips_non_matching:
  "(\<not> regex_match name pat \<longrightarrow>
      scan_loop pat (xs @ name # ys) k = scan_loop pat (xs @ ys) k)
   \<and> map_option (regex_match ''2024-01-01[x]_svc.log'')
        (regex_compile (pattern_string ''2024-01-01'' ''svc'')) = Some False
   \<and> (find_char name' CHR ''['' = Some b \<and> find_char name' CHR '']'' = Some e
      \<and> (b + 1 < length name' \<longrightarrow>
            \<not> is_digit (name' ! (b + 1)) \<and> \<not> is_space (name' ! (b + 1))
            \<and> name' ! (b + 1) \<noteq> CHR ''+'' \<and> name' ! (b + 1) \<noteq> CHR ''-'')
      \<longrightarrow> parse_index name' = Some 0)
   \<and> generate_filepath svc_sink (jan_disk [(jan_dir @ [''2024-01-01[]_svc.log''], [])])
        (noon_jan01, noon_jan01) = Inr (jan_dir @ [''2024-01-01[1]_svc.log''])"
proof -
  have skipped: "\<not> regex_match name pat \<longrightarrow>
      scan_loop pat (xs @ name # ys) k = scan_loop pat (xs @ ys) k"
    by (simp add: scan_loop_skip)
  have no_match: "map_option (regex_match ''2024-01-01[x]_svc.log'')
        (regex_compile (pattern_string ''2024-01-01'' ''svc'')) = Some False"
    by code_simp
  have zero: "find_char name' CHR ''['' = Some b \<and> find_char name' CHR '']'' = Some e
      \<and> (b + 1 < length name' \<longrightarrow>
            \<not> is_digit (name' ! (b + 1)) \<and> \<not> is_space (name' ! (b + 1))
            \<and> name' ! (b + 1) \<noteq> CHR ''+'' \<and> name' ! (b + 1) \<noteq> CHR ''-'')
      \<longrightarrow> parse_index name' = Some 0"
    using parse_index_no_number [of name' b e] by blast
  have empty_brackets:
    "generate_filepath svc_sink (jan_disk [(jan_dir @ [''2024-01-01[]_svc.log''], [])])
        (noon_jan01, noon_jan01) = Inr (jan_dir @ [''2024-01-01[1]_svc.log''])"
    by code_simp
  from skipped no_match zero empty_brackets show ?thesis by blast
qed

text \<open>
  Witness for C6: the scan with and without the name \<open>2024-01-01[x]_svc.log\<close>, and the
  index of \<open>2024-01-01[]_svc.log\<close>.
\<close>

theorem scan_skips_non_matching_witness:
  "\<not> regex_match ''2024-01-01[x]_svc.log'' svc_pattern
   \<and> scan_loop svc_pattern [''2024-01-01_svc.log'', ''2024-01-01[x]_svc.log''] 0
       = scan_loop svc_pattern [''2024-01-01_svc.log''] 0
   \<and> parse_index ''2024-01-01[]_svc.log'' = Some 0"
proof -
  have h1: "\<not> regex_match ''2024-01-01[x]_svc.log'' svc_pattern"
    by code_simp
  have h2: "find_char ''2024-01-01[]_svc.log'' CHR ''['' = Some 10"
    by code_simp
  have h3: "find_char ''2024-01-01[]_svc.log'' CHR '']'' = Some 11"
    by code_simp
  have h4: "10 + 1 < length ''2024-01-01[]_svc.log'' \<longrightarrow>
            \<not> is_digit (''2024-01-01[]_svc.log'' ! (10 + 1))
            \<and> \<not> is_space (''2024-01-01[]_svc.log'' ! (10 + 1))
            \<and> ''2024-01-01[]_svc.log'' ! (10 + 1) \<noteq> CHR ''+''
            \<and> ''2024-01-01[]_svc.log'' ! (10 + 1) \<noteq> CHR ''-''"
    by code_simp
  show ?thesis
    using scan_skips_non_matching [of "''2024-01-01[x]_svc.log''" svc_pattern "[''2024-01-01_svc.log'']" "[]" 0
        "''2024-01-01[]_svc.log''" 10 11] h1 h2 h3 h4
    by simp
qed

subsection \<open>What rotation changes\<close>

text \<open>
  C8, as the code has it: \<^verbatim>\<open>rotate_file\<close> closes the stream, clears the stream's error
  state and resets the byte counter to 0.  The \<^verbatim>\<open>clear()\<close> of line 138 is the stream's: the
  stored file path keeps the path of the file just closed, and the target path, the
  suffix, the rotation size and the flush flag are unchanged.
\<close>

theorem rotate_file_effect:
  "rotate_file s =
     s\<lparr>file := \<lparr>handle = None, good = True\<rparr>, characters_written := 0\<rparr>
   \<and> \<not> is_open (file (rotate_file s))
   \<and> good (file (rotate_file s))
   \<and> characters_written (rotate_file s) = 0
   \<and> file_path (rotate_file s) = file_path s
   \<and> target_path (rotate_file s) = target_path s
   \<and> file_name_suffix (rotate_file s) = file_name_suffix s
   \<and> rotation_size (rotate_file s) = rotation_size s
   \<and> auto_flush (rotate_file s) = auto_flush s"
  by (simp add: rotate_file_def ofstream_clear_def ofstream_close_def is_open_def)

text \<open>
  C8 as stated fails: rotating a sink whose file is open leaves the stored path in place,
  it is not emptied.
\<close>

theorem rotate_file_keeps_path:
  "file_path
     (rotate_file
        \<lparr>auto_flush = True,
         file = \<lparr>handle = Some (svc_file), good = True\<rparr>,
         target_path = [''var'', ''log''],
         file_path = svc_file,
         file_name_suffix = ''svc'',
         rotation_size = 50,
         characters_written = 5\<rparr>)
   \<noteq> []"
  by (simp add: rotate_file_def svc_file_def)

subsection \<open>The clock and the record\<close>

text \<open>
  C9: \<^verbatim>\<open>consume\<close> ignores the record it is handed, time stamp included.  A generated
  path is the target, the month of the clock, and a file name that starts with the date
  of the clock; and when a call opens a file, it is the path generated from the clock
  readings of that call.
\<close>

theorem path_named_from_clock:
  "consume s fs clk rec msg = consume s fs clk rec' msg
   \<and> (generate_filepath s fs clk = Inr p \<longrightarrow>
        (\<exists>n. p = path_append (target_path s @ [yyyy_mm (snd clk)])
                   (indexed_name (yyyy_mm_dd (fst clk)) n (file_name_suffix s))))
   \<and> ((\<not> is_open (file s) \<or> rotation_due s msg)
        \<and> consume s fs clk rec msg = Returned s' fs' \<and> handle (file s') = Some p'
      \<longrightarrow> generate_filepath s fs clk = Inr p')"
proof -
  have ignored: "consume s fs clk rec msg = consume s fs clk rec' msg"
    by (simp add: consume_def)
  have named: "generate_filepath s fs clk = Inr p \<longrightarrow>
        (\<exists>n. p = path_append (target_path s @ [yyyy_mm (snd clk)])
                   (indexed_name (yyyy_mm_dd (fst clk)) n (file_name_suffix s)))"
    by (auto simp: generate_filepath_cases split: option.splits sum.splits)
  have opened: "(\<not> is_open (file s) \<or> rotation_due s msg)
        \<and> consume s fs clk rec msg = Returned s' fs' \<and> handle (file s') = Some p'
      \<longrightarrow> generate_filepath s fs clk = Inr p'"
    using consume_opening_path [of s msg fs clk rec s' fs' p'] by blast
  from ignored named opened show ?thesis by blast
qed

text \<open>
  Witness for C9: a record stamped 2023-06-15 consumed when the clock reads 2024-01-01
  lands in \<open>2024-01-01_svc.log\<close>.
\<close>

theorem path_named_from_clock_witness:
  "yyyy_mm_dd (timestamp (rec_at old_stamp)) = ''2023-06-15''
   \<and> yyyy_mm_dd noon_jan01 = ''2024-01-01''
   \<and> (\<exists>s' fs' n. consume svc_sink empty_disk (noon_jan01, noon_jan01) (rec_at old_stamp) ''AAAA''
          = Returned s' fs'
        \<and> handle (file s') = Some svc_file
        \<and> svc_file = path_append (target_path svc_sink @ [yyyy_mm noon_jan01])
                        (indexed_name (yyyy_mm_dd noon_jan01) n (file_name_suffix svc_sink)))"
proof -
  let ?s' = "svc_sink\<lparr>file := \<lparr>handle = Some svc_file, good = True\<rparr>, file_path := svc_file,
          characters_written := of_nat (length ''AAAA'') + 1\<rparr>"
  let ?fs' = "(snd (create_directories empty_disk (parent_path svc_file)))
          \<lparr>files := AList.update svc_file (''AAAA'' @ [CHR 0x0A]) (files empty_disk)\<rparr>"
  have d1: "yyyy_mm_dd (timestamp (rec_at old_stamp)) = ''2023-06-15''" by code_simp
  have d2: "yyyy_mm_dd noon_jan01 = ''2024-01-01''" by code_simp
  have ret: "consume svc_sink empty_disk (noon_jan01, noon_jan01) (rec_at old_stamp) ''AAAA''
      = Returned ?s' ?fs'"
    by (rule svc_first_record)
  have h: "handle (file ?s') = Some svc_file" by simp
  note inst = path_named_from_clock [of svc_sink empty_disk "(noon_jan01, noon_jan01)" "rec_at old_stamp" "''AAAA''"
      "rec_at noon_jan01" svc_file ?s' ?fs' svc_file]
  have gen: "generate_filepath svc_sink empty_disk (noon_jan01, noon_jan01) = Inr svc_file"
    using inst svc_first_closed ret h by blast
  then obtain n where "svc_file = path_append (target_path svc_sink @ [yyyy_mm noon_jan01])
       (indexed_name (yyyy_mm_dd noon_jan01) n (file_name_suffix svc_sink))"
    using inst by auto
  with d1 d2 ret h show ?thesis by blast
qed



end
